theory Spec2Isabelle
  imports
    Complex_Main
    "HOL-Library.Word"
    "HOL-Library.AList"
    "HOL-Library.Char_ord"
    "HOL-Library.List_Lexorder"
begin

section \<open>Leaky splits and uniqueness scores of fiftyone-brain\<close>

text \<open>
  The development embeds \<^verbatim>\<open>fiftyone/brain/internal/core/leaky_splits.py\<close> and the
  function \<^verbatim>\<open>_compute_uniqueness\<close> of \<^verbatim>\<open>fiftyone/brain/uniqueness.py\<close>.
  Python exceptions are values of \<open>error\<close>; a function that can raise returns
  \<open>error + 'a\<close> with \<open>Inl\<close> for the exception.  A Python function that falls off its
  end returns \<^verbatim>\<open>None\<close>, which is \<open>None\<close> of an option type here.
\<close>

subsection \<open>Data model\<close>

datatype error =
    ValueError string
  | TypeError string
  | ExternalError string

text \<open>
  A sample of the host framework: a stable identifier, a file path, a list of tags and
  named fields.
\<close>

record sample =
  sid :: string
  filepath :: string
  tags :: "string list"
  named_fields :: "(string \<times> string) list"

text \<open>A view is the ordered sequence of samples it yields.\<close>

type_synonym view = "sample list"

text \<open>
  The \<^verbatim>\<open>samples\<close> argument of an index: what \<^verbatim>\<open>iter_samples()\<close> yields, and the
  root dataset \<^verbatim>\<open>samples._dataset\<close> it is a view of.
\<close>

record collection =
  root_dataset :: view
  iter_samples :: view

definition wf_collection :: "collection \<Rightarrow> bool" where
  "wf_collection c =
     (distinct (map sid (root_dataset c)) \<and>
      distinct (map sid (iter_samples c)) \<and>
      set (map sid (iter_samples c)) \<subseteq> set (map sid (root_dataset c)))"

subsection \<open>The view collaborator\<close>

text \<open>The distinct elements of a list, in the order of their first occurrence.\<close>

definition first_occurrences :: "'a list \<Rightarrow> 'a list" where
  "first_occurrences xs = rev (remdups (rev xs))"

text \<open>
  The operations of the host framework's sample collections that the module calls.
  \<^verbatim>\<open>select(ids, ordered=True)\<close> keeps the samples whose identifier is listed, sorted
  by the position at which the identifier first occurs in the list; without
  \<^verbatim>\<open>ordered\<close> they stay in the order of the collection.
\<close>

definition select :: "view \<Rightarrow> string list \<Rightarrow> bool \<Rightarrow> view" where
  "select ds ids ordered =
     (if ordered then
        concat (map (\<lambda>i. filter (\<lambda>s. sid s = i) ds) (first_occurrences ids))
      else filter (\<lambda>s. sid s \<in> set ids) ds)"

definition match_tags :: "view \<Rightarrow> string list \<Rightarrow> view" where
  "match_tags v ts = filter (\<lambda>s. set ts \<inter> set (tags s) \<noteq> {}) v"

text \<open>
  Reading a field of a sample, \<^verbatim>\<open>sample[name]\<close>.  Every sample has the built-in fields
  \<^verbatim>\<open>id\<close> and \<^verbatim>\<open>filepath\<close>, which hold strings, and \<^verbatim>\<open>tags\<close>, which holds a list of
  strings; the other fields are the named ones.
\<close>

datatype field_value = StrValue string | ListValue "string list"

definition get_field :: "sample \<Rightarrow> string \<Rightarrow> field_value option" where
  "get_field s f =
     (if f = ''id'' then Some (StrValue (sid s))
      else if f = ''filepath'' then Some (StrValue (filepath s))
      else if f = ''tags'' then Some (ListValue (tags s))
      else map_option StrValue (map_of (named_fields s) f))"

text \<open>
  \<^verbatim>\<open>distinct(field)\<close>: the sorted distinct values of the field; a list field
  contributes its elements, a sample without the field nothing.
\<close>

definition field_elements :: "sample \<Rightarrow> string \<Rightarrow> string list" where
  "field_elements s f =
     (case get_field s f of
        None \<Rightarrow> []
      | Some (StrValue x) \<Rightarrow> [x]
      | Some (ListValue xs) \<Rightarrow> xs)"

definition distinct_values :: "view \<Rightarrow> string \<Rightarrow> string list" where
  "distinct_values v f = sort (remdups (concat (map (\<lambda>s. field_elements s f) v)))"

text \<open>
  \<^verbatim>\<open>match(F(field) == val)\<close> for a string \<open>val\<close>: the samples whose field holds that
  string.  A list is never equal to a string.
\<close>

definition match_field_eq :: "view \<Rightarrow> string \<Rightarrow> string \<Rightarrow> view" where
  "match_field_eq v f val = filter (\<lambda>s. get_field s f = Some (StrValue val)) v"

text \<open>
  \<^verbatim>\<open>sample[name] = val\<close> followed by \<^verbatim>\<open>sample.save()\<close>, for a string \<open>val\<close>, on the
  sample with identifier \<open>i\<close> of the store.  The framework does not accept a string for
  the list of tags, nor a new identifier; the file path can be overwritten.
\<close>

definition set_field :: "view \<Rightarrow> string \<Rightarrow> string \<Rightarrow> string \<Rightarrow> error + view" where
  "set_field store i f val =
     (if f = ''id'' \<or> f = ''tags'' then
        Inl (ExternalError (''invalid value for field '' @ f))
      else if f = ''filepath'' then
        Inr (map (\<lambda>s. if sid s = i then s\<lparr>filepath := val\<rparr> else s) store)
      else
        Inr (map (\<lambda>s. if sid s = i
                      then s\<lparr>named_fields := AList.update f val (named_fields s)\<rparr>
                      else s) store))"

subsection \<open>Split resolution\<close>

text \<open>\<^verbatim>\<open>arithmetic_true = lambda x: int(x is not None)\<close>\<close>

definition arithmetic_true :: "'a option \<Rightarrow> nat" where
  "arithmetic_true x = (if x \<noteq> None then 1 else 0)"

text \<open>
  \<^verbatim>\<open>_field_to_views\<close>: one view per distinct value of the field, or \<^verbatim>\<open>ValueError\<close>
  when there are fewer than two.
\<close>

definition field_to_views :: "view \<Rightarrow> string \<Rightarrow> error + view list" where
  "field_to_views samples field =
     (let field_values = distinct_values samples field in
      if length field_values < 2 then
        Inl (ValueError (''Field '' @ field @
               '' has less than 2 distinct values,can't be used to create splits''))
      else Inr (map (\<lambda>val. match_field_eq samples field val) field_values))"

text \<open>\<^verbatim>\<open>_tags_to_views\<close>: one view per tag, or \<^verbatim>\<open>ValueError\<close> for fewer than two tags.\<close>

definition tags_to_views :: "view \<Rightarrow> string list \<Rightarrow> error + view list" where
  "tags_to_views samples tgs =
     (if length tgs < 2 then Inl (ValueError ''Must provide at least two tags.'')
      else Inr (map (\<lambda>tag. match_tags samples [tag]) tgs))"

text \<open>
  \<^verbatim>\<open>_to_views\<close>.  The count of given arguments tests \<^verbatim>\<open>is not None\<close>; the dispatch
  tests truth, and an empty list or empty string is false in Python.  When no branch is
  taken the function ends without a \<^verbatim>\<open>return\<close>, so the result is \<^verbatim>\<open>None\<close>.
\<close>

definition to_views ::
  "view \<Rightarrow> view list option \<Rightarrow> string option \<Rightarrow> string list option \<Rightarrow> error + view list option"
where
  "to_views samples split_views split_field split_tags =
     (let num_given =
            arithmetic_true split_views + arithmetic_true split_field
              + arithmetic_true split_tags
      in
      if num_given = 0 then Inl (ValueError ''One of the split arguments must be given.'')
      else if num_given > 1 then
        Inl (ValueError ''Only one of the split arguments must be given.'')
      else
        (case split_views of
           Some (v # vs) \<Rightarrow> Inr (Some (v # vs))
         | _ \<Rightarrow>
            (case split_field of
               Some (c # cs) \<Rightarrow>
                 (case field_to_views samples (c # cs) of
                    Inl e \<Rightarrow> Inl e
                  | Inr views \<Rightarrow> Inr (Some views))
             | _ \<Rightarrow>
                (case split_tags of
                   Some (t # ts) \<Rightarrow>
                     (case tags_to_views samples (t # ts) of
                        Inl e \<Rightarrow> Inl e
                      | Inr views \<Rightarrow> Inr (Some views))
                 | _ \<Rightarrow> Inr None))))"

subsection \<open>The image hash\<close>

text \<open>
  \<^verbatim>\<open>_image_hash\<close> after the external steps (open, decode, grayscale, resize): the
  resized image is a matrix of 8-bit pixels, one list per row.
\<close>

type_synonym pixel = "8 word"

text \<open>\<^verbatim>\<open>resized[:, 1:] > resized[:, :-1]\<close>, for one row.\<close>

definition diff_row :: "pixel list \<Rightarrow> bool list" where
  "diff_row r = map2 (\<lambda>a b. a > b) (tl r) (butlast r)"

text \<open>\<^verbatim>\<open>"".join(["1" if v else "0" for v in diff.flatten()])\<close>\<close>

definition binary_string :: "bool list \<Rightarrow> string" where
  "binary_string bs = map (\<lambda>v. if v then CHR ''1'' else CHR ''0'') bs"

text \<open>
  \<^verbatim>\<open>int(s, 2)\<close> on a string of binary digits, the first character the most
  significant.  The empty string is no literal: Python raises \<^verbatim>\<open>ValueError\<close>.
  (Signs, underscores, blanks and the \<^verbatim>\<open>0b\<close> prefix, which Python also reads, never
  occur in a \<open>binary_string\<close>; the model refuses them.)
\<close>

definition int_base2 :: "string \<Rightarrow> error + nat" where
  "int_base2 s =
     (if s \<noteq> [] \<and> list_all (\<lambda>c. c = CHR ''0'' \<or> c = CHR ''1'') s
      then Inr (foldl (\<lambda>acc c. 2 * acc + (if c = CHR ''1'' then 1 else 0)) 0 s)
      else Inl (ValueError ''invalid literal for int() with base 2''))"

text \<open>
  The format specification \<^verbatim>\<open>0{width}x\<close>: lower-case hexadecimal, padded with zeros
  on the left to at least \<open>width\<close> characters.
\<close>

definition hex_char :: "nat \<Rightarrow> char" where
  "hex_char d = ''0123456789abcdef'' ! d"

fun hex_digits :: "nat \<Rightarrow> string" where
  "hex_digits n =
     (if n < 16 then [hex_char n] else hex_digits (n div 16) @ [hex_char (n mod 16)])"

declare hex_digits.simps [simp del]

definition format_0x :: "nat \<Rightarrow> nat \<Rightarrow> string" where
  "format_0x width n = replicate (width - length (hex_digits n)) CHR ''0'' @ hex_digits n"

definition image_hash_resized :: "pixel list list \<Rightarrow> nat \<Rightarrow> error + string" where
  "image_hash_resized resized hash_size =
     (let diff = map diff_row resized;
          bs = binary_string (concat diff)
      in case int_base2 bs of
           Inl e \<Rightarrow> Inl e
         | Inr n \<Rightarrow> Inr (format_0x (hash_size * hash_size div 4) n))"

text \<open>
  What lies outside the module: the content hash of a file, already passed through
  \<^verbatim>\<open>str\<close>, and the chain open, \<^verbatim>\<open>cv2.imread\<close>, \<^verbatim>\<open>cv2.cvtColor\<close>, \<^verbatim>\<open>cv2.resize\<close> to
  \<open>hash_size + 1\<close> columns and \<open>hash_size\<close> rows.  Both read the file system and can fail.
\<close>

record environment =
  compute_filehash :: "string \<Rightarrow> error + string"
  load_gray_resized :: "string \<Rightarrow> nat \<Rightarrow> error + pixel list list"

definition image_hash :: "environment \<Rightarrow> string \<Rightarrow> nat \<Rightarrow> error + string" where
  "image_hash env image_path hash_size =
     (case load_gray_resized env image_path hash_size of
        Inl e \<Rightarrow> Inl e
      | Inr resized \<Rightarrow> image_hash_resized resized hash_size)"

subsection \<open>The hash-bucket index\<close>

record hash_config =
  cfg_split_views :: "view list option"
  cfg_split_field :: "string option"
  cfg_split_tags :: "string list option"
  cfg_method :: string
  cfg_hash_field :: "string option"

text \<open>
  \<^verbatim>\<open>_hash2ids\<close> is a \<^verbatim>\<open>defaultdict(list)\<close>: keys in the order of their first
  insertion, each with the list of identifiers appended to it.
\<close>

type_synonym hash2ids = "(string \<times> string list) list"

fun dd_append :: "hash2ids \<Rightarrow> string \<Rightarrow> string \<Rightarrow> hash2ids" where
  "dd_append [] k v = [(k, [v])]"
| "dd_append ((k', l) # rest) k v =
     (if k' = k then (k', l @ [v]) # rest else (k', l) # dd_append rest k v)"

record hash_index =
  idx_hash2ids :: hash2ids
  idx_split_views :: "view list option"
  idx_dataset :: view

text \<open>
  The property \<^verbatim>\<open>_hash_function\<close>: no branch is taken for a method other than
  \<^verbatim>\<open>"filepath"\<close> and \<^verbatim>\<open>"image"\<close>, and the property is \<^verbatim>\<open>None\<close>.  The image hash
  is used with its default \<^verbatim>\<open>hash_size=24\<close>.
\<close>

definition hash_function ::
  "environment \<Rightarrow> hash_config \<Rightarrow> (string \<Rightarrow> error + string) option" where
  "hash_function env cfg =
     (if cfg_method cfg = ''filepath'' then Some (compute_filehash env)
      else if cfg_method cfg = ''image'' then
        Some (\<lambda>image_path. image_hash env image_path 24)
      else None)"

text \<open>
  The first line of the loop body of \<^verbatim>\<open>_compute_hashes\<close>,
  \<^verbatim>\<open>str(self._hash_function(s["filepath"]))\<close>.  Calling the \<^verbatim>\<open>None\<close> property
  raises \<^verbatim>\<open>TypeError\<close>.
\<close>

definition sample_hash :: "environment \<Rightarrow> hash_config \<Rightarrow> sample \<Rightarrow> error + string" where
  "sample_hash env cfg s =
     (case hash_function env cfg of
        None \<Rightarrow> Inl (TypeError ''NoneType object is not callable'')
      | Some hf \<Rightarrow> hf (filepath s))"

text \<open>
  The end of the loop body of \<^verbatim>\<open>_compute_hashes\<close>: the hash is written back to the
  sample when \<^verbatim>\<open>hash_field\<close> is set and not empty.
\<close>

definition write_hash :: "hash_config \<Rightarrow> view \<Rightarrow> sample \<Rightarrow> string \<Rightarrow> error + view" where
  "write_hash cfg store s hash =
     (case cfg_hash_field cfg of
        Some (c # cs) \<Rightarrow> set_field store (sid s) (c # cs) hash
      | _ \<Rightarrow> Inr store)"

text \<open>
  \<^verbatim>\<open>_compute_hashes\<close>: the loop over \<^verbatim>\<open>samples.iter_samples()\<close>, with the bucket map
  and the sample store passed along.  A failure of the hash function or of the write
  leaves the loop with the store as it is then.
\<close>

fun compute_hashes ::
  "environment \<Rightarrow> hash_config \<Rightarrow> view \<Rightarrow> hash2ids \<Rightarrow> view \<Rightarrow> (error + hash2ids) \<times> view"
where
  "compute_hashes env cfg [] h store = (Inr h, store)"
| "compute_hashes env cfg (s # ss) h store =
     (case sample_hash env cfg s of
        Inl e \<Rightarrow> (Inl e, store)
      | Inr hash \<Rightarrow>
          (case write_hash cfg store s hash of
             Inl e \<Rightarrow> (Inl e, store)
           | Inr store1 \<Rightarrow>
               compute_hashes env cfg ss (dd_append h hash (sid s)) store1))"

text \<open>
  \<^verbatim>\<open>LeakySplitsHashIndex.__init__\<close>: the splits are resolved first, then every sample
  is hashed.  The second component is the sample store afterwards.
\<close>

definition hash_index_init ::
  "environment \<Rightarrow> collection \<Rightarrow> hash_config \<Rightarrow> (error + hash_index) \<times> view" where
  "hash_index_init env samples cfg =
     (case to_views (iter_samples samples) (cfg_split_views cfg) (cfg_split_field cfg)
             (cfg_split_tags cfg) of
        Inl e \<Rightarrow> (Inl e, root_dataset samples)
      | Inr views \<Rightarrow>
         (case compute_hashes env cfg (iter_samples samples) [] (root_dataset samples) of
            (Inl e, store) \<Rightarrow> (Inl e, store)
          | (Inr h, store) \<Rightarrow>
              (Inr \<lparr>idx_hash2ids = h, idx_split_views = views, idx_dataset = store\<rparr>,
               store)))"

text \<open>The loop of \<^verbatim>\<open>leaks\<close> over \<^verbatim>\<open>self._hash2ids.values()\<close>.\<close>

definition leak_ids :: "hash2ids \<Rightarrow> string list" where
  "leak_ids h =
     foldl (\<lambda>acc id_list. if length id_list > 1 then acc @ id_list else acc) []
       (map snd h)"

definition leaks :: "hash_index \<Rightarrow> view" where
  "leaks idx = select (idx_dataset idx) (leak_ids (idx_hash2ids idx)) True"

text \<open>
  \<^verbatim>\<open>leaks_by_sample\<close> takes an identifier string or a sample object.  The scan returns
  at the first bucket that contains the identifier; when none does, the function ends
  without a \<^verbatim>\<open>return\<close>.
\<close>

datatype sample_arg = IdString string | SampleObject sample

fun scan_buckets :: "string \<Rightarrow> string list list \<Rightarrow> string list option" where
  "scan_buckets i [] = None"
| "scan_buckets i (id_list # rest) =
     (if i \<in> set id_list then Some id_list else scan_buckets i rest)"

definition leaks_by_sample :: "hash_index \<Rightarrow> sample_arg \<Rightarrow> view option" where
  "leaks_by_sample idx arg =
     (let i = (case arg of IdString s \<Rightarrow> s | SampleObject smp \<Rightarrow> sid smp)
      in case scan_buckets i (map snd (idx_hash2ids idx)) of
           None \<Rightarrow> None
         | Some id_list \<Rightarrow> Some (select (idx_dataset idx) id_list False))"

subsection \<open>The embedding-similarity index\<close>

text \<open>
  The similarity backend that \<^verbatim>\<open>LeakySplitsSKLIndex\<close> inherits is outside the
  module.  Its state has an arbitrary type \<open>'b\<close>, its embeddings (with the sample and
  label identifiers) an arbitrary type \<open>'e\<close>, and the four operations that \<^verbatim>\<open>leaks\<close>
  calls are the fields of a record.
\<close>

record ('b, 'e) backend =
  compute_embeddings :: "'b \<Rightarrow> view \<Rightarrow> 'e \<times> 'b"
  add_to_index :: "'b \<Rightarrow> 'e \<Rightarrow> 'b"
  find_duplicates :: "'b \<Rightarrow> real \<Rightarrow> 'b"
  duplicates_view :: "'b \<Rightarrow> view"

record 'b skl_index =
  skl_backend :: 'b
  skl_dataset :: view
  skl_split_views :: "view list option"
  leak_threshold :: real
  cached_leaks_view :: "view option"

text \<open>
  \<^verbatim>\<open>LeakySplitsSKLIndex.__init__\<close>, after the inherited constructor has left the
  backend in state \<open>b\<close>: the splits are resolved, the threshold is 1 and nothing is
  cached.
\<close>

definition skl_index_init ::
  "'b \<Rightarrow> collection \<Rightarrow> view list option \<Rightarrow> string option \<Rightarrow> string list option
     \<Rightarrow> error + 'b skl_index" where
  "skl_index_init b samples split_views split_field split_tags =
     (case to_views (iter_samples samples) split_views split_field split_tags of
        Inl e \<Rightarrow> Inl e
      | Inr views \<Rightarrow>
          Inr \<lparr>skl_backend = b, skl_dataset = root_dataset samples,
               skl_split_views = views, leak_threshold = 1, cached_leaks_view = None\<rparr>)"

definition set_threshold :: "'b skl_index \<Rightarrow> real \<Rightarrow> 'b skl_index" where
  "set_threshold idx threshold = idx\<lparr>leak_threshold := threshold\<rparr>"

text \<open>
  The property \<^verbatim>\<open>leaks\<close> of the similarity index, with the index passed along.  The
  guard is \<^verbatim>\<open>if self._cached_leaks_view:\<close>, a test of truth: \<^verbatim>\<open>None\<close> is false, and
  so is a sample collection of the host framework that has no samples (its truth value
  is that of its length).  Only a cached view with at least one sample is returned
  without running the pipeline.
\<close>

definition skl_leaks :: "('b, 'e) backend \<Rightarrow> 'b skl_index \<Rightarrow> view \<times> 'b skl_index" where
  "skl_leaks be idx =
     (case cached_leaks_view idx of
        Some (s # ss) \<Rightarrow> (s # ss, idx)
      | _ \<Rightarrow>
         (case compute_embeddings be (skl_backend idx) (skl_dataset idx) of
            (embeddings, b1) \<Rightarrow>
              (let b2 = add_to_index be b1 embeddings;
                   b3 = find_duplicates be b2 (leak_threshold idx);
                   v = duplicates_view be b3
               in (v, idx\<lparr>skl_backend := b3, cached_leaks_view := Some v\<rparr>))))"

subsection \<open>Uniqueness scores\<close>








subsection \<open>The reporting interface\<close>

text \<open>
  \<^verbatim>\<open>num_leaks\<close> is \<^verbatim>\<open>return self.leaks.count\<close>: it reads the attribute \<^verbatim>\<open>count\<close> of the
  view and does not call it.  On the host framework's sample collections \<^verbatim>\<open>count\<close> is
  a method, like \<^verbatim>\<open>iter_samples\<close>, \<^verbatim>\<open>select\<close>, \<^verbatim>\<open>match\<close> and \<^verbatim>\<open>distinct\<close>, which
  the module calls; reading it gives the bound method, and only calling that gives the
  number of samples.
\<close>

datatype attribute = IntValue nat | BoundMethod "unit \<Rightarrow> nat"

definition view_count :: "view \<Rightarrow> unit \<Rightarrow> nat" where
  "view_count v u = length v"

definition count_attribute :: "view \<Rightarrow> attribute" where
  "count_attribute v = BoundMethod (view_count v)"

text \<open>The property \<^verbatim>\<open>num_leaks\<close>, for the view that \<^verbatim>\<open>self.leaks\<close> returns.\<close>

definition num_leaks :: "view \<Rightarrow> attribute" where
  "num_leaks leaks_view = count_attribute leaks_view"

subsection \<open>Auxiliary notions for the statements\<close>

text \<open>All identifiers held in the buckets, in bucket order.\<close>

definition bucket_ids :: "hash2ids \<Rightarrow> string list" where
  "bucket_ids h = concat (map snd h)"

text \<open>Lookup with the default of a \<^verbatim>\<open>defaultdict(list)\<close>.\<close>

definition dd_get :: "hash2ids \<Rightarrow> string \<Rightarrow> string list" where
  "dd_get h k = (case map_of h k of None \<Rightarrow> [] | Some l \<Rightarrow> l)"

text \<open>
  The number a list of bits denotes, the first bit the most significant, and the number
  a string of lower-case hexadecimal digits denotes.
\<close>

definition bits_value :: "bool list \<Rightarrow> nat" where
  "bits_value bs = foldl (\<lambda>acc b. 2 * acc + (if b then 1 else 0)) 0 bs"

definition hex_digit_value :: "char \<Rightarrow> nat" where
  "hex_digit_value c = length (takeWhile (\<lambda>x. x \<noteq> c) ''0123456789abcdef'')"

definition hex_value :: "string \<Rightarrow> nat" where
  "hex_value s = foldl (\<lambda>acc c. 16 * acc + hex_digit_value c) 0 s"



subsection \<open>Example data\<close>

text \<open>
  Three samples, hashed by the first character of the file path: \<open>a\<close> and \<open>c\<close>
  collide, \<open>b\<close> is alone in its bucket.
\<close>

definition example_samples :: view where
  "example_samples =
     [\<lparr>sid = ''a'', filepath = ''x1'', tags = [''train''], named_fields = []\<rparr>,
      \<lparr>sid = ''b'', filepath = ''y1'', tags = [''train''], named_fields = []\<rparr>,
      \<lparr>sid = ''c'', filepath = ''x2'', tags = [''test''], named_fields = []\<rparr>]"

definition example_env :: environment where
  "example_env =
     \<lparr>compute_filehash = (\<lambda>path. Inr (take 1 path)),
      load_gray_resized = (\<lambda>path hash_size. Inl (ExternalError ''not an image''))\<rparr>"

definition example_config :: hash_config where
  "example_config =
     \<lparr>cfg_split_views = None, cfg_split_field = None,
      cfg_split_tags = Some [''train'', ''test''],
      cfg_method = ''filepath'', cfg_hash_field = None\<rparr>"

definition example_collection :: collection where
  "example_collection = \<lparr>root_dataset = example_samples, iter_samples = example_samples\<rparr>"

text \<open>The index that \<open>hash_index_init\<close> builds from the example.\<close>

definition example_index :: hash_index where
  "example_index =
     \<lparr>idx_hash2ids = [(''x'', [''a'', ''c'']), (''y'', [''b''])],
      idx_split_views =
        Some [match_tags example_samples [''train''], match_tags example_samples [''test'']],
      idx_dataset = example_samples\<rparr>"

text \<open>
  A backend instrumented with call counts (of \<open>compute_embeddings\<close>, \<open>add_to_index\<close>
  and \<open>find_duplicates\<close>) that finds no duplicates, and the index built on it.
\<close>

definition counting_backend :: "(nat \<times> nat \<times> nat, unit) backend" where
  "counting_backend =
     \<lparr>compute_embeddings = (\<lambda>(c, a, f) v. ((), (Suc c, a, f))),
      add_to_index = (\<lambda>(c, a, f) e. (c, Suc a, f)),
      find_duplicates = (\<lambda>(c, a, f) t. (c, a, Suc f)),
      duplicates_view = (\<lambda>b. [])\<rparr>"

definition counting_index :: "(nat \<times> nat \<times> nat) skl_index" where
  "counting_index =
     \<lparr>skl_backend = (0, 0, 0), skl_dataset = example_samples,
      skl_split_views =
        Some [match_tags example_samples [''train''], match_tags example_samples [''test'']],
      leak_threshold = 1, cached_leaks_view = None\<rparr>"

text \<open>
  A backend whose state is the threshold last passed to \<open>find_duplicates\<close>; samples
  \<open>a\<close> and \<open>c\<close> are duplicates at every threshold above 1, and nothing is at 1 or less.
\<close>

definition threshold_backend :: "(real, unit) backend" where
  "threshold_backend =
     \<lparr>compute_embeddings = (\<lambda>b v. ((), b)),
      add_to_index = (\<lambda>b e. b),
      find_duplicates = (\<lambda>b t. t),
      duplicates_view =
        (\<lambda>b. if 1 < b then select example_samples [''a'', ''c''] False else [])\<rparr>"

definition threshold_index :: "real skl_index" where
  "threshold_index =
     \<lparr>skl_backend = 0, skl_dataset = example_samples,
      skl_split_views =
        Some [match_tags example_samples [''train''], match_tags example_samples [''test'']],
      leak_threshold = 1, cached_leaks_view = None\<rparr>"

section \<open>Properties\<close>

subsection \<open>Split resolution\<close>

text \<open>
  C10: an input that supplies exactly one split argument, as an empty collection, is
  counted as given, so no error is raised, but every dispatch branch tests truth and is
  skipped: \<^verbatim>\<open>_to_views\<close> returns \<^verbatim>\<open>None\<close>.  This holds for \<^verbatim>\<open>split_views=[]\<close> and
  for \<^verbatim>\<open>split_tags=[]\<close>, on every collection.
\<close>

theorem to_views_empty_collection_returns_None:
  "to_views samples (Some []) None None = Inr None
   \<and> to_views samples None None (Some []) = Inr None"
  by (simp add: to_views_def arithmetic_true_def)

subsection \<open>The hash-bucket index\<close>

lemma bucket_ids_simps:
  "bucket_ids [] = []" "bucket_ids ((k, l) # rest) = l @ bucket_ids rest"
  by (simp_all add: bucket_ids_def)

lemma foldl_leak_acc:
  "foldl (\<lambda>acc id_list. if length id_list > 1 then acc @ id_list else acc) acc ls
     = acc @ concat (filter (\<lambda>id_list. 2 \<le> length id_list) ls)"
  by (induction ls arbitrary: acc) auto

lemma leak_ids_concat:
  "leak_ids h = concat (filter (\<lambda>id_list. 2 \<le> length id_list) (map snd h))"
  by (simp only: leak_ids_def foldl_leak_acc append_Nil)

lemma set_bucket_ids_dd_append:
  "set (bucket_ids (dd_append h k v)) = insert v (set (bucket_ids h))"
  by (induction h k v rule: dd_append.induct) (auto simp: bucket_ids_simps)

lemma distinct_bucket_ids_dd_append:
  "distinct (bucket_ids (dd_append h k v))
     \<longleftrightarrow> distinct (bucket_ids h) \<and> v \<notin> set (bucket_ids h)"
  by (induction h k v rule: dd_append.induct)
     (auto simp: bucket_ids_simps set_bucket_ids_dd_append)

lemma map_sid_set_field:
  "set_field store i f val = Inr store1 \<Longrightarrow> map sid store1 = map sid store"
  by (induction store arbitrary: store1) (auto simp: set_field_def split: if_splits)

lemma map_sid_write_hash:
  "write_hash cfg store s hash = Inr store1 \<Longrightarrow> map sid store1 = map sid store"
  by (auto simp: write_hash_def map_sid_set_field split: option.splits list.splits)

lemma compute_hashes_Cons_Inr:
  assumes "compute_hashes env cfg (s # ss) h store = (Inr h', store')"
  obtains hash store1 where
    "sample_hash env cfg s = Inr hash"
    and "map sid store1 = map sid store"
    and "compute_hashes env cfg ss (dd_append h hash (sid s)) store1 = (Inr h', store')"
proof (cases "sample_hash env cfg s")
  case (Inl e)
  with assms show ?thesis by simp
next
  case (Inr hash)
  show ?thesis
  proof (cases "write_hash cfg store s hash")
    case (Inl e)
    with assms \<open>sample_hash env cfg s = Inr hash\<close> show ?thesis by simp
  next
    case written: (Inr store1)
    then have "map sid store1 = map sid store" by (rule map_sid_write_hash)
    moreover
    have "compute_hashes env cfg ss (dd_append h hash (sid s)) store1 = (Inr h', store')"
      using assms Inr written by simp
    ultimately show ?thesis using that Inr by blast
  qed
qed

lemma compute_hashes_store_ids:
  "compute_hashes env cfg ss h store = (Inr h', store') \<Longrightarrow> map sid store' = map sid store"
proof (induction ss arbitrary: h store)
  case Nil
  then show ?case by simp
next
  case (Cons s ss)
  from Cons.prems obtain hash store1 where
    "map sid store1 = map sid store"
    "compute_hashes env cfg ss (dd_append h hash (sid s)) store1 = (Inr h', store')"
    by (rule compute_hashes_Cons_Inr)
  with Cons.IH show ?case by metis
qed

lemma compute_hashes_bucket_ids:
  "compute_hashes env cfg ss h store = (Inr h', store') \<Longrightarrow>
     set (bucket_ids h') = set (bucket_ids h) \<union> set (map sid ss)"
proof (induction ss arbitrary: h store)
  case Nil
  then show ?case by simp
next
  case (Cons s ss)
  from Cons.prems obtain hash store1 where
    rec: "compute_hashes env cfg ss (dd_append h hash (sid s)) store1 = (Inr h', store')"
    by (rule compute_hashes_Cons_Inr)
  from Cons.IH [OF rec] show ?case
    by (simp add: set_bucket_ids_dd_append)
qed

lemma compute_hashes_distinct:
  "compute_hashes env cfg ss h store = (Inr h', store') \<Longrightarrow>
   distinct (bucket_ids h) \<Longrightarrow> distinct (map sid ss) \<Longrightarrow>
   set (map sid ss) \<inter> set (bucket_ids h) = {} \<Longrightarrow>
     distinct (bucket_ids h')"
proof (induction ss arbitrary: h store)
  case Nil
  then show ?case by simp
next
  case (Cons s ss)
  from Cons.prems(1) obtain hash store1 where
    rec: "compute_hashes env cfg ss (dd_append h hash (sid s)) store1 = (Inr h', store')"
    by (rule compute_hashes_Cons_Inr)
  let ?h1 = "dd_append h hash (sid s)"
  have d1: "distinct (bucket_ids ?h1)"
    using Cons.prems by (auto simp: distinct_bucket_ids_dd_append)
  have d2: "distinct (map sid ss)" using Cons.prems by simp
  have d3: "set (map sid ss) \<inter> set (bucket_ids ?h1) = {}"
    using Cons.prems by (auto simp: set_bucket_ids_dd_append)
  show ?case by (rule Cons.IH [OF rec d1 d2 d3])
qed

lemma filter_sid_single:
  "distinct (map sid ds) \<Longrightarrow> i \<in> set (map sid ds) \<Longrightarrow>
     map sid (filter (\<lambda>s. sid s = i) ds) = [i]"
proof (induction ds)
  case Nil
  then show ?case by simp
next
  case (Cons a ds)
  show ?case
  proof (cases "sid a = i")
    case True
    from Cons.prems(1) have "sid a \<notin> sid ` set ds" by simp
    with True have "\<forall>s\<in>set ds. sid s \<noteq> i" by blast
    then have "filter (\<lambda>s. sid s = i) ds = []"
      by (simp add: filter_empty_conv)
    with True show ?thesis by simp
  next
    case False
    with Cons show ?thesis by auto
  qed
qed

lemma first_occurrences_distinct: "distinct xs \<Longrightarrow> first_occurrences xs = xs"
  by (simp add: first_occurrences_def distinct_remdups_id)

lemma select_ordered_ids:
  assumes "distinct (map sid ds)" and "distinct ids" and "set ids \<subseteq> set (map sid ds)"
  shows "map sid (select ds ids True) = ids"
proof -
  have "map sid (concat (map (\<lambda>i. filter (\<lambda>s. sid s = i) ds) js)) = js"
    if "set js \<subseteq> set (map sid ds)" for js
    using that
  proof (induction js)
    case Nil
    then show ?case by simp
  next
    case (Cons j js)
    then show ?case using filter_sid_single [OF assms(1), of j] by simp
  qed
  with assms show ?thesis by (simp add: select_def first_occurrences_distinct)
qed

lemma dd_get_dd_append:
  "dd_get (dd_append h k v) k' = (if k' = k then dd_get h k @ [v] else dd_get h k')"
  by (induction h k v rule: dd_append.induct) (auto simp: dd_get_def)

lemma keys_dd_append:
  "map fst (dd_append h k v) = (if k \<in> set (map fst h) then map fst h else map fst h @ [k])"
  by (induction h k v rule: dd_append.induct) auto

lemma remdups_drop_later:
  "k \<in> set bs \<Longrightarrow> remdups (as @ k # bs) = remdups (as @ bs)"
  by (induction as) auto

lemma first_occurrences_absorb:
  "k \<in> set xs \<Longrightarrow> first_occurrences (xs @ k # ys) = first_occurrences (xs @ ys)"
  using remdups_drop_later [of k "rev xs" "rev ys"]
  by (simp add: first_occurrences_def)

lemma compute_hashes_dd_get:
  "compute_hashes env cfg ss h store = (Inr h', store') \<Longrightarrow>
     dd_get h' k = dd_get h k @ map sid (filter (\<lambda>s. sample_hash env cfg s = Inr k) ss)"
proof (induction ss arbitrary: h store)
  case Nil
  then show ?case by simp
next
  case (Cons s ss)
  from Cons.prems obtain hash store1 where
    hash: "sample_hash env cfg s = Inr hash" and
    rec: "compute_hashes env cfg ss (dd_append h hash (sid s)) store1 = (Inr h', store')"
    by (rule compute_hashes_Cons_Inr)
  from Cons.IH [OF rec] hash show ?case
    by (auto simp: dd_get_dd_append)
qed

lemma compute_hashes_keys:
  "compute_hashes env cfg ss h store = (Inr h', store') \<Longrightarrow>
     first_occurrences (map Inr (map fst h') :: (error + string) list)
       = first_occurrences (map Inr (map fst h) @ map (sample_hash env cfg) ss)
     \<and> (distinct (map fst h) \<longrightarrow> distinct (map fst h'))"
proof (induction ss arbitrary: h store)
  case Nil
  then show ?case by simp
next
  case (Cons s ss)
  from Cons.prems obtain hash store1 where
    hash: "sample_hash env cfg s = Inr hash" and
    rec: "compute_hashes env cfg ss (dd_append h hash (sid s)) store1 = (Inr h', store')"
    by (rule compute_hashes_Cons_Inr)
  have keys: "first_occurrences (map Inr (map fst (dd_append h hash (sid s))) @ ys)
      = first_occurrences (map Inr (map fst h) @ (Inr hash :: error + string) # ys)" for ys
  proof (cases "hash \<in> set (map fst h)")
    case True
    then have "(Inr hash :: error + string) \<in> set (map Inr (map fst h))"
      by (simp add: image_iff)
    from first_occurrences_absorb [OF this, of ys] True show ?thesis
      by (simp only: keys_dd_append if_True)
  next
    case False
    then show ?thesis
      by (simp only: keys_dd_append if_False map_append list.map append_assoc append_Cons
            append_Nil)
  qed
  have "distinct (map fst h) \<Longrightarrow> distinct (map fst (dd_append h hash (sid s)))"
    by (auto simp: keys_dd_append)
  with Cons.IH [OF rec] hash keys show ?case
    by simp
qed

lemma select_subset: "set (select ds ids ordered) \<subseteq> set ds"
  by (auto simp: select_def)

lemma distinct_concat_filter:
  "distinct (concat ls) \<Longrightarrow> distinct (concat (filter P ls))"
  by (induction ls) auto

lemma disjoint_dropped_bucket:
  "distinct (concat ls) \<Longrightarrow> l \<in> set ls \<Longrightarrow> \<not> P l \<Longrightarrow>
     set l \<inter> set (concat (filter P ls)) = {}"
proof (induction ls)
  case Nil
  then show ?case by simp
next
  case (Cons l' ls)
  from Cons.prems(1) have d: "distinct (concat ls)"
    and dj: "set l' \<inter> set (concat ls) = {}" by auto
  have sub: "set (concat (filter P ls)) \<subseteq> set (concat ls)" by auto
  show ?case
  proof (cases "l = l'")
    case True
    with Cons.prems(3) dj sub show ?thesis by auto
  next
    case False
    with Cons.prems(2) have mem: "l \<in> set ls" by simp
    from Cons.IH [OF d mem Cons.prems(3)]
    have ih: "set l \<inter> set (concat (filter P ls)) = {}" .
    from mem have "set l \<subseteq> set (concat ls)" by auto
    with dj have "set l \<inter> set l' = {}" by auto
    with ih show ?thesis by auto
  qed
qed

lemma hash_index_init_Inr:
  assumes "hash_index_init env c cfg = (Inr idx, store)"
  shows "compute_hashes env cfg (iter_samples c) [] (root_dataset c)
           = (Inr (idx_hash2ids idx), store)
         \<and> idx_dataset idx = store
         \<and> to_views (iter_samples c) (cfg_split_views cfg) (cfg_split_field cfg)
               (cfg_split_tags cfg) = Inr (idx_split_views idx)"
  using assms
  by (auto simp: hash_index_init_def split: sum.splits prod.splits)

text \<open>
  C1: for every index built by \<open>hash_index_init\<close> from a collection whose sample
  identifiers are distinct, the view returned by \<open>leaks\<close> holds exactly the identifiers
  of the buckets with at least two members, bucket after bucket in bucket order and in
  the order within each bucket; no identifier of a bucket with fewer than two members
  is in it; the view is taken from the index's dataset.  The buckets themselves are in
  the order in which their hashes first occur, and each lists the identifiers of the
  samples with that hash in the order of iteration.
\<close>

theorem hash_leaks_exact:
  assumes wf: "wf_collection c"
      and init: "hash_index_init env c cfg = (Inr idx, store)"
  shows "map sid (leaks idx)
           = concat (filter (\<lambda>id_list. 2 \<le> length id_list) (map snd (idx_hash2ids idx)))
       \<and> (\<forall>id_list \<in> set (map snd (idx_hash2ids idx)).
             length id_list < 2 \<longrightarrow> set id_list \<inter> set (map sid (leaks idx)) = {})
       \<and> set (leaks idx) \<subseteq> set (idx_dataset idx)
       \<and> (\<forall>(k, id_list) \<in> set (idx_hash2ids idx).
             id_list = map sid (filter (\<lambda>s. sample_hash env cfg s = Inr k) (iter_samples c)))
       \<and> map Inr (map fst (idx_hash2ids idx))
           = first_occurrences (map (sample_hash env cfg) (iter_samples c))"
proof -
  let ?h = "idx_hash2ids idx"
  let ?P = "\<lambda>id_list :: string list. 2 \<le> length id_list"
  from hash_index_init_Inr [OF init]
  have run: "compute_hashes env cfg (iter_samples c) [] (root_dataset c) = (Inr ?h, store)"
    and ds: "idx_dataset idx = store" by simp_all
  from wf have dr: "distinct (map sid (root_dataset c))"
    and di: "distinct (map sid (iter_samples c))"
    and sub: "set (map sid (iter_samples c)) \<subseteq> set (map sid (root_dataset c))"
    by (simp_all add: wf_collection_def)
  have store_ids: "map sid store = map sid (root_dataset c)"
    by (rule compute_hashes_store_ids [OF run])
  have ids: "set (bucket_ids ?h) = set (map sid (iter_samples c))"
    using compute_hashes_bucket_ids [OF run] by (simp add: bucket_ids_simps)
  have dist: "distinct (bucket_ids ?h)"
    using compute_hashes_distinct [OF run] di by (simp add: bucket_ids_simps)
  then have dist': "distinct (concat (map snd ?h))" by (simp add: bucket_ids_def)
  have "distinct (leak_ids ?h)"
    unfolding leak_ids_concat by (rule distinct_concat_filter [OF dist'])
  moreover have "set (leak_ids ?h) \<subseteq> set (map sid store)"
  proof -
    have "set (leak_ids ?h) \<subseteq> set (bucket_ids ?h)"
      unfolding leak_ids_concat bucket_ids_def by auto
    with ids sub store_ids show ?thesis by simp
  qed
  ultimately have "map sid (select store (leak_ids ?h) True) = leak_ids ?h"
    using dr store_ids by (intro select_ordered_ids) simp_all
  then have c1: "map sid (leaks idx) = concat (filter ?P (map snd ?h))"
    by (simp add: leaks_def ds leak_ids_concat)
  have c2: "\<forall>id_list \<in> set (map snd ?h).
              length id_list < 2 \<longrightarrow> set id_list \<inter> set (map sid (leaks idx)) = {}"
  proof (intro ballI impI)
    fix id_list assume "id_list \<in> set (map snd ?h)" and "length id_list < 2"
    then have "set id_list \<inter> set (concat (filter ?P (map snd ?h))) = {}"
      by (intro disjoint_dropped_bucket [OF dist']) simp_all
    with c1 show "set id_list \<inter> set (map sid (leaks idx)) = {}" by simp
  qed
  have c3: "set (leaks idx) \<subseteq> set (idx_dataset idx)"
    unfolding leaks_def by (rule select_subset)
  from compute_hashes_keys [OF run]
  have keys: "first_occurrences (map Inr (map fst ?h) :: (error + string) list)
                = first_occurrences (map (sample_hash env cfg) (iter_samples c))"
    and dk: "distinct (map fst ?h)" by simp_all
  have "distinct (map Inr (map fst ?h) :: (error + string) list)"
    using dk by (simp add: distinct_map inj_on_def)
  with keys have c5: "map Inr (map fst ?h)
      = first_occurrences (map (sample_hash env cfg) (iter_samples c))"
    by (simp add: first_occurrences_distinct)
  have c4: "\<forall>(k, id_list) \<in> set ?h.
      id_list = map sid (filter (\<lambda>s. sample_hash env cfg s = Inr k) (iter_samples c))"
  proof (intro ballI, clarify)
    fix k id_list assume "(k, id_list) \<in> set ?h"
    with dk have "map_of ?h k = Some id_list" by simp
    then have "dd_get ?h k = id_list" by (simp add: dd_get_def)
    with compute_hashes_dd_get [OF run, of k]
    show "id_list = map sid (filter (\<lambda>s. sample_hash env cfg s = Inr k) (iter_samples c))"
      by (simp add: dd_get_def)
  qed
  from c1 c2 c3 c4 c5 show ?thesis by blast
qed

lemma example_wf: "wf_collection example_collection"
  by (simp add: wf_collection_def example_collection_def example_samples_def)

lemma example_index_built:
  "hash_index_init example_env example_collection example_config
     = (Inr example_index, example_samples)"
  by (simp add: hash_index_init_def example_collection_def example_config_def
        example_env_def example_index_def example_samples_def to_views_def
        arithmetic_true_def tags_to_views_def sample_hash_def hash_function_def
        write_hash_def)

theorem hash_leaks_exact_witness:
  "wf_collection example_collection
   \<and> hash_index_init example_env example_collection example_config
       = (Inr example_index, example_samples)
   \<and> map sid (leaks example_index) = [''a'', ''c'']"
proof -
  from hash_leaks_exact [OF example_wf example_index_built]
  have "map sid (leaks example_index)
          = concat (filter (\<lambda>id_list. 2 \<le> length id_list)
                      (map snd (idx_hash2ids example_index)))"
    by (rule conjunct1)
  then have "map sid (leaks example_index) = [''a'', ''c'']"
    by (simp add: example_index_def)
  with example_wf example_index_built show ?thesis by simp
qed

text \<open>
  C9: \<open>leaks_by_sample\<close> gives the same result for a sample object and for its
  identifier string.
\<close>

theorem leaks_by_sample_object_or_id:
  "leaks_by_sample idx (SampleObject s) = leaks_by_sample idx (IdString (sid s))"
  by (simp add: leaks_by_sample_def)

lemma scan_buckets_Some:
  "scan_buckets i ls = Some l \<Longrightarrow> l \<in> set ls \<and> i \<in> set l"
  by (induction ls) (auto split: if_splits)

lemma scan_buckets_None: "scan_buckets i ls = None \<longleftrightarrow> i \<notin> set (concat ls)"
  by (induction ls) auto

lemma select_unordered_ids:
  "set ids \<subseteq> set (map sid ds) \<Longrightarrow> set (map sid (select ds ids False)) = set ids"
  by (auto simp: select_def)

text \<open>
  For every sample of the indexed collection \<open>leaks_by_sample\<close> returns a view: the
  members of the sample's bucket, the sample among them.  The scan does not look at the
  size of the bucket.
\<close>

lemma leaks_by_sample_indexed:
  assumes wf: "wf_collection c"
      and init: "hash_index_init env c cfg = (Inr idx, store)"
      and x: "x \<in> set (iter_samples c)"
  shows "\<exists>id_list v. id_list \<in> set (map snd (idx_hash2ids idx)) \<and> sid x \<in> set id_list
           \<and> leaks_by_sample idx (SampleObject x) = Some v
           \<and> set (map sid v) = set id_list"
proof -
  let ?h = "idx_hash2ids idx"
  from hash_index_init_Inr [OF init]
  have run: "compute_hashes env cfg (iter_samples c) [] (root_dataset c) = (Inr ?h, store)"
    and ds: "idx_dataset idx = store" by simp_all
  from wf have sub: "set (map sid (iter_samples c)) \<subseteq> set (map sid (root_dataset c))"
    by (simp add: wf_collection_def)
  have store_ids: "map sid store = map sid (root_dataset c)"
    by (rule compute_hashes_store_ids [OF run])
  have ids: "set (bucket_ids ?h) = set (map sid (iter_samples c))"
    using compute_hashes_bucket_ids [OF run] by (simp add: bucket_ids_simps)
  with x have "sid x \<in> set (concat (map snd ?h))" by (simp add: bucket_ids_def)
  then obtain id_list where sc: "scan_buckets (sid x) (map snd ?h) = Some id_list"
    using scan_buckets_None [of "sid x" "map snd ?h"]
    by (cases "scan_buckets (sid x) (map snd ?h)") auto
  from scan_buckets_Some [OF sc]
  have mem: "id_list \<in> set (map snd ?h)" and xin: "sid x \<in> set id_list"
    by simp_all
  from mem have "set id_list \<subseteq> set (bucket_ids ?h)" by (auto simp: bucket_ids_def)
  with ids sub store_ids have "set id_list \<subseteq> set (map sid store)" by simp
  then have "set (map sid (select store id_list False)) = set id_list"
    by (rule select_unordered_ids)
  with sc mem xin ds show ?thesis
    by (auto simp: leaks_by_sample_def)
qed

text \<open>
  C2, at the example index: sample \<open>b\<close> is alone in its bucket and is no leak, yet
  \<open>leaks_by_sample\<close> returns a view, the one holding \<open>b\<close> itself, where the claim
  has no result.
\<close>

theorem leaks_by_sample_singleton_bucket:
  "hash_index_init example_env example_collection example_config
     = (Inr example_index, example_samples)
   \<and> scan_buckets ''b'' (map snd (idx_hash2ids example_index)) = Some [''b'']
   \<and> leaks_by_sample example_index (IdString ''b'')
       = Some [\<lparr>sid = ''b'', filepath = ''y1'', tags = [''train''], named_fields = []\<rparr>]
   \<and> ''b'' \<notin> set (map sid (leaks example_index))"
  using example_index_built
  by (simp add: leaks_by_sample_def example_index_def example_samples_def select_def
        first_occurrences_def leaks_def leak_ids_def)

subsection \<open>The reporting interface\<close>

text \<open>
  C3, at the example index, whose \<open>leaks\<close> view has two samples: \<open>num_leaks\<close> is the
  bound method \<^verbatim>\<open>count\<close> of that view and not the number 2; the number is what
  calling it returns.
\<close>

theorem num_leaks_is_bound_method:
  "num_leaks (leaks example_index) = BoundMethod (view_count (leaks example_index))
   \<and> num_leaks (leaks example_index) \<noteq> IntValue (length (leaks example_index))
   \<and> view_count (leaks example_index) () = 2"
  by (simp add: num_leaks_def count_attribute_def view_count_def example_index_def
        example_samples_def select_def first_occurrences_def leaks_def leak_ids_def)

subsection \<open>Split resolution at index construction\<close>

text \<open>
  When \<open>to_views\<close> raises: no argument or more than one is given, or the argument that
  is dispatched on is a non-empty field name with fewer than two distinct values, or a
  non-empty list of fewer than two tags.
\<close>

lemma to_views_raises_iff:
  "(\<exists>e. to_views samples split_views split_field split_tags = Inl e) \<longleftrightarrow>
     arithmetic_true split_views + arithmetic_true split_field + arithmetic_true split_tags \<noteq> 1
     \<or> (\<exists>f. split_field = Some f \<and> f \<noteq> [] \<and> length (distinct_values samples f) < 2)
     \<or> (\<exists>ts. split_tags = Some ts \<and> ts \<noteq> [] \<and> length ts < 2)"
  by (cases split_views; cases split_field; cases split_tags)
     (auto simp: to_views_def arithmetic_true_def field_to_views_def tags_to_views_def Let_def
           split: list.splits)

text \<open>
  An error of split resolution ends the construction before any sample is hashed: the
  result does not depend on the hash functions and the store is untouched.
\<close>

lemma hash_index_init_split_error:
  "to_views (iter_samples c) (cfg_split_views cfg) (cfg_split_field cfg) (cfg_split_tags cfg)
     = Inl e \<Longrightarrow> hash_index_init env c cfg = (Inl e, root_dataset c)"
  by (simp add: hash_index_init_def)

text \<open>
  C4, at \<^verbatim>\<open>split_tags=[]\<close>: fewer than two tags are supplied, and \<open>tags_to_views\<close>
  itself rejects the empty list, but the dispatch of \<open>to_views\<close> never reaches it; the
  index is built, without splits.
\<close>

theorem empty_split_tags_not_rejected:
  "tags_to_views example_samples [] = Inl (ValueError ''Must provide at least two tags.'')
   \<and> hash_index_init example_env example_collection
        (example_config\<lparr>cfg_split_tags := Some []\<rparr>)
       = (Inr (example_index\<lparr>idx_split_views := None\<rparr>), example_samples)"
  by (simp add: hash_index_init_def example_collection_def example_config_def
        example_env_def example_index_def example_samples_def to_views_def
        arithmetic_true_def tags_to_views_def sample_hash_def hash_function_def
        write_hash_def)

subsection \<open>The image hash\<close>

lemma length_diff_row: "length (diff_row r) = length r - 1"
  by (simp add: diff_row_def)

lemma nth_diff_row:
  "j + 1 < length r \<Longrightarrow> diff_row r ! j = (r ! j < r ! (j + 1))"
  by (simp add: diff_row_def nth_tl nth_butlast)

lemma length_concat_uniform:
  "\<forall>l \<in> set ls. length l = n \<Longrightarrow> length (concat ls) = length ls * n"
  by (induction ls) auto

lemma nth_concat_uniform:
  "\<forall>l \<in> set ls. length l = n \<Longrightarrow> i < length ls \<Longrightarrow> j < n \<Longrightarrow>
     concat ls ! (i * n + j) = ls ! i ! j"
proof (induction ls arbitrary: i)
  case Nil
  then show ?case by simp
next
  case (Cons l ls)
  show ?case
  proof (cases i)
    case 0
    with Cons.prems show ?thesis by (simp add: nth_append)
  next
    case (Suc i')
    with Cons.prems have "concat ls ! (i' * n + j) = ls ! i' ! j"
      by (intro Cons.IH) auto
    with Suc Cons.prems show ?thesis
      by (simp add: nth_append add.assoc)
  qed
qed

lemma bits_value_snoc: "bits_value (bs @ [b]) = 2 * bits_value bs + (if b then 1 else 0)"
  by (simp add: bits_value_def)

lemma bits_value_bound: "bits_value bs < 2 ^ length bs"
  by (induction bs rule: rev_induct) (auto simp: bits_value_snoc bits_value_def)

lemma int_base2_binary_string:
  "bs \<noteq> [] \<Longrightarrow> int_base2 (binary_string bs) = Inr (bits_value bs)"
proof -
  assume ne: "bs \<noteq> []"
  have digits: "list_all (\<lambda>c. c = CHR ''0'' \<or> c = CHR ''1'') (binary_string bs)"
    by (induction bs) (simp_all add: binary_string_def)
  have val: "foldl (\<lambda>acc c. 2 * acc + (if c = CHR ''1'' then 1 else 0)) a (binary_string bs)
        = foldl (\<lambda>acc b. 2 * acc + (if b then 1 else 0)) a bs" for a :: nat
    by (induction bs arbitrary: a) (simp_all add: binary_string_def)
  from ne digits val show ?thesis
    by (simp add: int_base2_def bits_value_def binary_string_def)
qed

lemma length_hex_digits:
  "0 < k \<Longrightarrow> n < 16 ^ k \<Longrightarrow> length (hex_digits n) \<le> k"
proof (induction n arbitrary: k rule: hex_digits.induct)
  case (1 n)
  show ?case
  proof (cases "n < 16")
    case True
    with "1.prems" show ?thesis by (simp add: hex_digits.simps)
  next
    case False
    with "1.prems" obtain k' where k: "k = Suc k'" "0 < k'"
      by (cases k; cases "k - 1") auto
    with "1.prems" have "n div 16 < 16 ^ k'"
      by (simp add: less_mult_imp_div_less mult.commute)
    from "1.IH" [OF False k(2) this] k False show ?thesis
      by (subst hex_digits.simps) simp
  qed
qed

lemma length_format_0x:
  "0 < width \<Longrightarrow> n < 16 ^ width \<Longrightarrow> length (format_0x width n) = width"
  using length_hex_digits [of width n] by (simp add: format_0x_def)

lemma hex_digit_value_hex_char: "d < 16 \<Longrightarrow> hex_digit_value (hex_char d) = d"
proof -
  assume "d < 16"
  then have "d \<in> set [0..<16]" by simp
  moreover have "\<forall>d \<in> set [0..<16]. hex_digit_value (hex_char d) = d"
    by code_simp
  ultimately show ?thesis by blast
qed

lemma hex_value_snoc: "hex_value (s @ [c]) = 16 * hex_value s + hex_digit_value c"
  by (simp add: hex_value_def)

lemma hex_value_hex_digits: "hex_value (hex_digits n) = n"
proof (induction n rule: hex_digits.induct)
  case (1 n)
  show ?case
  proof (cases "n < 16")
    case True
    then show ?thesis
      by (simp add: hex_digits.simps hex_value_def hex_digit_value_hex_char)
  next
    case False
    with "1.IH" show ?thesis
      by (subst hex_digits.simps) (simp add: hex_value_snoc hex_digit_value_hex_char)
  qed
qed

lemma hex_value_zeros: "hex_value (replicate m CHR ''0'' @ s) = hex_value s"
proof -
  have "foldl (\<lambda>acc c. 16 * acc + hex_digit_value c) 0 (replicate m CHR ''0'') = 0"
    by (induction m) (simp_all add: hex_digit_value_def)
  then show ?thesis by (simp add: hex_value_def)
qed

lemma hex_value_format_0x: "hex_value (format_0x width n) = n"
  by (simp add: format_0x_def hex_value_zeros hex_value_hex_digits)

lemma even_square_div4: "even (n::nat) \<Longrightarrow> (2::nat) ^ (n * n) = 16 ^ (n * n div 4)"
proof -
  assume "even n"
  then obtain k where n: "n = 2 * k" by (auto elim: evenE)
  have "n * n = 4 * (k * k)" by (simp add: n)
  then have "(2::nat) ^ (n * n) = (2 ^ 4) ^ (k * k)" and "n * n div 4 = k * k"
    by (simp_all add: power_mult)
  then show ?thesis by simp
qed


lemma hex_char_is_hex_digit: "d < 16 \<Longrightarrow> hex_char d \<in> set ''0123456789abcdef''"
  unfolding hex_char_def by (rule nth_mem) simp

lemma hex_digits_are_hex: "set (hex_digits n) \<subseteq> set ''0123456789abcdef''"
proof (induction n rule: hex_digits.induct)
  case (1 n)
  show ?case
  proof (cases "n < 16")
    case True
    with hex_char_is_hex_digit [of n] show ?thesis
      by (subst hex_digits.simps) simp
  next
    case False
    have "hex_char (n mod 16) \<in> set ''0123456789abcdef''"
      by (rule hex_char_is_hex_digit) simp
    with "1.IH" [OF False] False show ?thesis
      by (subst hex_digits.simps) simp
  qed
qed

lemma format_0x_is_hex: "set (format_0x width n) \<subseteq> set ''0123456789abcdef''"
proof -
  have "set (replicate m CHR ''0'') \<subseteq> {CHR ''0''}" for m
    by auto
  moreover have "CHR ''0'' \<in> set ''0123456789abcdef''" by simp
  ultimately have "set (replicate m CHR ''0'') \<subseteq> set ''0123456789abcdef''" for m
    by blast
  with hex_digits_are_hex [of n] show ?thesis
    unfolding format_0x_def set_append by blast
qed

lemma length_format_0x_lower: "width \<le> length (format_0x width n)"
  by (simp add: format_0x_def)

lemma length_format_0x_upper:
  "0 < k \<Longrightarrow> width \<le> k \<Longrightarrow> n < 16 ^ k \<Longrightarrow> length (format_0x width n) \<le> k"
  using length_hex_digits [of k n] by (simp add: format_0x_def)

lemma power2_le_power16_ceil: "(2::nat) ^ m \<le> 16 ^ ((m + 3) div 4)"
proof -
  have "(16::nat) ^ ((m + 3) div 4) = (2 ^ 4) ^ ((m + 3) div 4)" by simp
  also have "\<dots> = 2 ^ (4 * ((m + 3) div 4))" by (simp only: power_mult)
  finally have eq: "(16::nat) ^ ((m + 3) div 4) = 2 ^ (4 * ((m + 3) div 4))" .
  have "m \<le> 4 * ((m + 3) div 4)" by presburger
  then have "(2::nat) ^ m \<le> 2 ^ (4 * ((m + 3) div 4))"
    by (intro power_increasing) simp_all
  with eq show ?thesis by simp
qed

lemma even_square_ceil_div4:
  "even (n::nat) \<Longrightarrow> (n * n + 3) div 4 = n * n div 4"
proof -
  assume "even n"
  then obtain k where n: "n = 2 * k" by (auto elim: evenE)
  have "n * n = 4 * (k * k)" by (simp add: n)
  then show ?thesis by simp
qed

text \<open>
  C5, with the length as the code has it: for every \<open>hash_size > 0\<close> and every matrix
  of \<open>hash_size\<close> rows of \<open>hash_size + 1\<close> pixels, the image hash succeeds; the bits
  are the comparisons \<open>pixel[i][j+1] > pixel[i][j]\<close>, row after row; the result is a
  string of lower-case hexadecimal digits that denotes the number whose binary digits
  are those bits; its length is at least \<open>hash_size * hash_size div 4\<close> and at most that
  quotient rounded up, and for an even \<open>hash_size\<close> (the default 24 among them, with
  144 characters) exactly \<open>hash_size * hash_size div 4\<close>.  The result is a function of
  the pixel matrix and the size alone.
\<close>

theorem image_hash_resized_hex:
  assumes pos: "0 < hash_size"
      and rows: "length resized = hash_size"
      and cols: "\<forall>row \<in> set resized. length row = hash_size + 1"
  shows "\<exists>h. image_hash_resized resized hash_size = Inr h
           \<and> set h \<subseteq> set ''0123456789abcdef''
           \<and> hex_value h = bits_value (concat (map diff_row resized))
           \<and> hash_size * hash_size div 4 \<le> length h
           \<and> length h \<le> (hash_size * hash_size + 3) div 4
           \<and> (even hash_size \<longrightarrow> length h = hash_size * hash_size div 4)
           \<and> length (concat (map diff_row resized)) = hash_size * hash_size
           \<and> (\<forall>i<hash_size. \<forall>j<hash_size.
                 concat (map diff_row resized) ! (i * hash_size + j)
                   = (resized ! i ! j < resized ! i ! (j + 1)))"
proof -
  let ?diff = "map diff_row resized"
  let ?bits = "concat ?diff"
  let ?w = "hash_size * hash_size div 4"
  let ?k = "(hash_size * hash_size + 3) div 4"
  let ?h = "format_0x ?w (bits_value ?bits)"
  have uni: "\<forall>l \<in> set ?diff. length l = hash_size"
    using cols by (auto simp: length_diff_row)
  have len: "length ?bits = hash_size * hash_size"
    using length_concat_uniform [OF uni] rows by simp
  from pos have sq: "0 < hash_size * hash_size" by simp
  with len have "0 < length ?bits" by simp
  then have ne: "?bits \<noteq> []" by (metis length_greater_0_conv)
  have run: "image_hash_resized resized hash_size = Inr ?h"
    by (simp add: image_hash_resized_def int_base2_binary_string [OF ne])
  have hex: "set ?h \<subseteq> set ''0123456789abcdef''"
    by (rule format_0x_is_hex)
  have val: "hex_value ?h = bits_value ?bits"
    by (rule hex_value_format_0x)
  have lower: "?w \<le> length ?h"
    by (rule length_format_0x_lower)
  have "bits_value ?bits < 2 ^ (hash_size * hash_size)"
    using bits_value_bound [of ?bits] len by simp
  also have "\<dots> \<le> 16 ^ ?k" by (rule power2_le_power16_ceil)
  finally have bound: "bits_value ?bits < 16 ^ ?k" .
  from sq have "4 \<le> hash_size * hash_size + 3" by simp
  then have kpos: "0 < ?k" by (simp only: div_greater_zero_iff) simp
  have wk: "?w \<le> ?k" by simp
  have upper: "length ?h \<le> ?k"
    by (rule length_format_0x_upper [OF kpos wk bound])
  have exact: "even hash_size \<longrightarrow> length ?h = ?w"
  proof
    assume "even hash_size"
    then have "?k = ?w" by (rule even_square_ceil_div4)
    with lower upper show "length ?h = ?w" by simp
  qed
  have nth: "\<forall>i<hash_size. \<forall>j<hash_size.
      ?bits ! (i * hash_size + j) = (resized ! i ! j < resized ! i ! (j + 1))"
  proof (intro allI impI)
    fix i j assume i: "i < hash_size" and j: "j < hash_size"
    from i rows have "resized ! i \<in> set resized" by simp
    with cols have lr: "length (resized ! i) = hash_size + 1" by blast
    have "?bits ! (i * hash_size + j) = ?diff ! i ! j"
      using i j rows by (intro nth_concat_uniform [OF uni]) simp_all
    also have "\<dots> = diff_row (resized ! i) ! j" using i rows by simp
    also have "\<dots> = (resized ! i ! j < resized ! i ! (j + 1))"
      using j lr by (intro nth_diff_row) simp
    finally show "?bits ! (i * hash_size + j) = (resized ! i ! j < resized ! i ! (j + 1))" .
  qed
  from run hex val lower upper exact len nth show ?thesis by blast
qed

text \<open>
  The theorem at an even and at an odd size: two rows of three pixels give \<open>c\<close>, one
  character; three rising rows of four pixels give \<open>1ff\<close>, three characters, between
  \<open>9 div 4 = 2\<close> and \<open>(9 + 3) div 4 = 3\<close>.
\<close>

theorem image_hash_resized_hex_witness:
  "0 < (2::nat) \<and> length [[1, 2, 3], [3, 2, 1 :: pixel]] = 2
   \<and> list_all (\<lambda>row. length row = 2 + 1) [[1, 2, 3], [3, 2, 1 :: pixel]]
   \<and> image_hash_resized [[1, 2, 3], [3, 2, 1]] 2 = Inr ''c''
   \<and> length ''c'' = 2 * 2 div 4
   \<and> 0 < (3::nat) \<and> length [[0, 1, 2, 3], [0, 1, 2, 3], [0, 1, 2, 3 :: pixel]] = 3
   \<and> list_all (\<lambda>row. length row = 3 + 1) [[0, 1, 2, 3], [0, 1, 2, 3], [0, 1, 2, 3 :: pixel]]
   \<and> image_hash_resized [[0, 1, 2, 3], [0, 1, 2, 3], [0, 1, 2, 3]] 3 = Inr ''1ff''
   \<and> 3 * 3 div 4 \<le> length ''1ff'' \<and> length ''1ff'' \<le> (3 * 3 + 3) div 4"
proof -
  have cols2: "\<forall>row \<in> set [[1, 2, 3], [3, 2, 1 :: pixel]]. length row = 2 + 1" by simp
  have cols3:
    "\<forall>row \<in> set [[0, 1, 2, 3], [0, 1, 2, 3], [0, 1, 2, 3 :: pixel]]. length row = 3 + 1"
    by simp
  from image_hash_resized_hex [of 2 "[[1, 2, 3], [3, 2, 1]]", OF _ _ cols2]
  obtain h2 where h2: "image_hash_resized [[1, 2, 3], [3, 2, 1]] 2 = Inr h2"
    and l2: "length h2 = 2 * 2 div 4" by auto
  from image_hash_resized_hex
         [of 3 "[[0, 1, 2, 3], [0, 1, 2, 3], [0, 1, 2, 3]]", OF _ _ cols3]
  obtain h3 where h3: "image_hash_resized [[0, 1, 2, 3], [0, 1, 2, 3], [0, 1, 2, 3]] 3 = Inr h3"
    and l3: "3 * 3 div 4 \<le> length h3" "length h3 \<le> (3 * 3 + 3) div 4" by auto
  have e2: "image_hash_resized [[1, 2, 3], [3, 2, 1]] 2 = Inr ''c''"
    by (simp add: image_hash_resized_def diff_row_def binary_string_def int_base2_def
          format_0x_def hex_digits.simps hex_char_def)
  have e3: "image_hash_resized [[0, 1, 2, 3], [0, 1, 2, 3], [0, 1, 2, 3]] 3 = Inr ''1ff''"
    by (simp add: image_hash_resized_def diff_row_def binary_string_def int_base2_def
          format_0x_def hex_digits.simps hex_char_def)
  from h2 l2 h3 l3 e2 e3 show ?thesis by simp
qed

text \<open>
  C5 as stated, for every size, fails at \<open>hash_size = 3\<close>: nine comparisons that all
  hold give \<open>1ff\<close>, three characters, while \<open>3 * 3 div 4 = 2\<close>.  The width in the
  format specification is a minimum, and nine bits need three hexadecimal digits.
\<close>

theorem image_hash_odd_size_counterexample:
  "image_hash_resized [[0, 1, 2, 3], [0, 1, 2, 3], [0, 1, 2, 3]] 3 = Inr ''1ff''
   \<and> length ''1ff'' \<noteq> 3 * 3 div 4"
  by (simp add: image_hash_resized_def diff_row_def binary_string_def int_base2_def
        format_0x_def hex_digits.simps hex_char_def)

subsection \<open>The embedding-similarity index\<close>

lemma counting_index_built:
  "skl_index_init (0, 0, 0) example_collection None None (Some [''train'', ''test''])
     = Inr counting_index"
  by (simp add: skl_index_init_def counting_index_def to_views_def arithmetic_true_def
        tags_to_views_def example_collection_def)

lemma threshold_index_built:
  "skl_index_init 0 example_collection None None (Some [''train'', ''test''])
     = Inr threshold_index"
  by (simp add: skl_index_init_def threshold_index_def to_views_def arithmetic_true_def
        tags_to_views_def example_collection_def)

text \<open>
  What the memo does achieve: an access that returns a view with at least one sample
  leaves that view cached, and every later access returns it with the index unchanged,
  so the backend is not called again.
\<close>

lemma skl_leaks_caches:
  "skl_leaks be idx = (v, idx') \<Longrightarrow>
     cached_leaks_view idx' = Some v
     \<or> (v \<noteq> [] \<and> idx' = idx \<and> cached_leaks_view idx = Some v)"
  by (auto simp: skl_leaks_def Let_def split: option.splits list.splits prod.splits)

lemma skl_leaks_cached_nonempty:
  "cached_leaks_view idx = Some v \<Longrightarrow> v \<noteq> [] \<Longrightarrow> skl_leaks be idx = (v, idx)"
  by (cases v) (simp_all add: skl_leaks_def)

lemma skl_leaks_second_access:
  assumes "skl_leaks be idx = (v, idx')" and "v \<noteq> []"
  shows "skl_leaks be idx' = (v, idx')"
proof -
  from skl_leaks_caches [OF assms(1)] assms(2) have "cached_leaks_view idx' = Some v"
    by auto
  then show ?thesis using assms(2) by (rule skl_leaks_cached_nonempty)
qed

text \<open>A cached empty view counts for nothing: the access runs as if nothing were cached.\<close>

lemma skl_leaks_cached_empty:
  "cached_leaks_view idx = Some [] \<Longrightarrow>
     fst (skl_leaks be idx) = fst (skl_leaks be (idx\<lparr>cached_leaks_view := None\<rparr>))
     \<and> skl_backend (snd (skl_leaks be idx))
         = skl_backend (snd (skl_leaks be (idx\<lparr>cached_leaks_view := None\<rparr>)))"
  by (simp add: skl_leaks_def Let_def split: prod.splits)

text \<open>
  \<open>set_threshold\<close> writes the threshold and nothing else; with a cached view that has
  at least one sample the next access still returns that view.
\<close>

lemma set_threshold_frame:
  "skl_backend (set_threshold idx t) = skl_backend idx
   \<and> skl_dataset (set_threshold idx t) = skl_dataset idx
   \<and> skl_split_views (set_threshold idx t) = skl_split_views idx
   \<and> cached_leaks_view (set_threshold idx t) = cached_leaks_view idx
   \<and> leak_threshold (set_threshold idx t) = t"
  by (simp add: set_threshold_def)

lemma set_threshold_cached_nonempty:
  "cached_leaks_view idx = Some v \<Longrightarrow> v \<noteq> [] \<Longrightarrow>
     skl_leaks be (set_threshold idx t) = (v, set_threshold idx t)
     \<and> fst (skl_leaks be (set_threshold idx t)) = fst (skl_leaks be idx)"
  by (simp add: skl_leaks_cached_nonempty set_threshold_frame)

text \<open>
  C6, at an index whose backend finds no duplicates: the first access caches the empty
  view, the guard of the second access is false for it, and the pipeline runs again;
  \<open>compute_embeddings\<close>, \<open>add_to_index\<close> and \<open>find_duplicates\<close> have each been
  called twice after two accesses.
\<close>

theorem skl_leaks_empty_view_recomputed:
  "skl_index_init (0, 0, 0) example_collection None None (Some [''train'', ''test''])
     = Inr counting_index
   \<and> fst (skl_leaks counting_backend counting_index) = []
   \<and> cached_leaks_view (snd (skl_leaks counting_backend counting_index)) = Some []
   \<and> skl_backend (snd (skl_leaks counting_backend counting_index)) = (1, 1, 1)
   \<and> skl_backend
        (snd (skl_leaks counting_backend (snd (skl_leaks counting_backend counting_index))))
       = (2, 2, 2)"
  using counting_index_built
  by (simp add: skl_leaks_def counting_backend_def counting_index_def Let_def)

text \<open>
  C7, at an index on which \<open>leaks\<close> has been computed and the cached view is empty:
  \<open>set_threshold\<close> leaves the cache field as it is, but the next access runs the
  pipeline with the new threshold and returns samples \<open>a\<close> and \<open>c\<close>, where without
  the call it returns the empty view.
\<close>

theorem set_threshold_changes_leaks_after_empty_view:
  "skl_index_init 0 example_collection None None (Some [''train'', ''test''])
     = Inr threshold_index
   \<and> fst (skl_leaks threshold_backend threshold_index) = []
   \<and> cached_leaks_view (snd (skl_leaks threshold_backend threshold_index)) = Some []
   \<and> cached_leaks_view
        (set_threshold (snd (skl_leaks threshold_backend threshold_index)) 2) = Some []
   \<and> fst (skl_leaks threshold_backend (snd (skl_leaks threshold_backend threshold_index)))
       = []
   \<and> map sid (fst (skl_leaks threshold_backend
                      (set_threshold (snd (skl_leaks threshold_backend threshold_index)) 2)))
       = [''a'', ''c'']"
  using threshold_index_built
  by (simp add: skl_leaks_def threshold_backend_def threshold_index_def set_threshold_def
        select_def first_occurrences_def example_samples_def Let_def)

subsection \<open>Uniqueness scores\<close>











end
